theory Spec2Isabelle
  imports Main "HOL-Library.Word"
begin

unbundle bit_operations_syntax

section \<open>FixedSizedStream: the state\<close>

text \<open>
  The model follows \<^verbatim>\<open>ibtk/include/ibtk/private/FixedSizedStream-inl.h\<close>.

  A stream owns a byte buffer of \<open>d_buffer_size\<close> bytes, a cursor \<open>d_buffer_index\<close>
  and a high-water mark \<open>d_current_size\<close>. The three counters are C++ \<^verbatim>\<open>int\<close>s. They are
  32-bit words here: \<open>+\<close> and \<open>*\<close> wrap around modulo \<open>2^32\<close>, which is what the compiled
  code does when a signed addition leaves the range of \<^verbatim>\<open>int\<close>, and \<open>sint\<close> reads a word
  as the two's complement number the program compares (\<open>sint a < sint b\<close> is the
  program's \<^verbatim>\<open>a < b\<close>).

  The source computes \<^verbatim>\<open>&d_buffer[d_buffer_index]\<close> without a range check and then
  reads or writes through that pointer. To keep what such an access does visible, memory
  is an explicit store: a function from addresses to bytes, an address being the offset
  from \<^verbatim>\<open>&d_buffer[0]\<close> (an unbounded integer). The buffer proper is the addresses
  \<open>0 \<le> a < d_buffer_size\<close>; every other address is memory that does not belong to the
  buffer.
\<close>

type_synonym byte = "8 word"

type_synonym int32 = "32 word"

type_synonym memory = "int \<Rightarrow> byte"

record stream =
  d_buffer_size :: int32
  d_current_size :: int32
  d_buffer_index :: int32
  d_buffer :: memory

text \<open>
  Modelled from the spec: \<^verbatim>\<open>TBOX_ERROR\<close> is a macro of the SAMRAI library, which is not
  among the sources. The spec describes a single error kind, the buffer overrun, raised
  synchronously and fatally: control does not come back to the caller. A failing
  operation returns \<open>Inl\<close> with the error and the state the stream object is in at that
  moment.
\<close>

datatype error = BufferOverrun

text \<open>The address range of the buffer.\<close>

definition in_buffer :: "stream \<Rightarrow> int \<Rightarrow> bool" where
  "in_buffer s a \<longleftrightarrow> 0 \<le> a \<and> a < sint (d_buffer_size s)"

section \<open>Getters and cursor repositioning\<close>

definition getBufferStart :: "stream \<Rightarrow> int" where
  "getBufferStart s = 0"

definition getCurrentSize :: "stream \<Rightarrow> int32" where
  "getCurrentSize s = d_current_size s"

definition getCurrentIndex :: "stream \<Rightarrow> int32" where
  "getCurrentIndex s = d_buffer_index s"

definition setCurrentIndex :: "stream \<Rightarrow> int32 \<Rightarrow> stream" where
  "setCurrentIndex s index = s\<lparr>d_buffer_index := index\<rparr>"

definition resetIndex :: "stream \<Rightarrow> stream" where
  "resetIndex s = setCurrentIndex s 0"

section \<open>Packed sizes\<close>

text \<open>
  Modelled from the spec: \<^verbatim>\<open>SAMRAI::tbox::AbstractStream::sizeofBool\<close>, \<^verbatim>\<open>sizeofChar\<close>,
  \<^verbatim>\<open>sizeofDoubleComplex\<close>, \<^verbatim>\<open>sizeofDouble\<close>, \<^verbatim>\<open>sizeofFloat\<close> and \<^verbatim>\<open>sizeofInt\<close> belong to
  the SAMRAI library, which is not among the sources. By the spec's table the packed width
  per element is 1 byte for a boolean and for a character, 4 bytes for an integer and for
  a single-precision float, 8 bytes for a double and 16 bytes for a double-precision
  complex pair; \<open>n\<close> elements take \<open>n\<close> times the width. The callers keep the result in an
  \<^verbatim>\<open>int\<close>, so the product is a 32-bit word as well.
\<close>

definition sizeofBool :: "int32 \<Rightarrow> int32" where
  "sizeofBool n = n * 1"

definition sizeofChar :: "int32 \<Rightarrow> int32" where
  "sizeofChar n = n * 1"

definition sizeofDoubleComplex :: "int32 \<Rightarrow> int32" where
  "sizeofDoubleComplex n = n * 16"

definition sizeofDouble :: "int32 \<Rightarrow> int32" where
  "sizeofDouble n = n * 8"

definition sizeofFloat :: "int32 \<Rightarrow> int32" where
  "sizeofFloat n = n * 4"

definition sizeofInt :: "int32 \<Rightarrow> int32" where
  "sizeofInt n = n * 4"

section \<open>The cursor-advance primitive\<close>

text \<open>
  \<^verbatim>\<open>
  void* ptr = &d_buffer[d_buffer_index];
  d_buffer_index += bytes;
  if (d_buffer_index > d_current_size)
  {
      d_current_size = d_buffer_index;
      if (d_buffer_index > d_buffer_size)
      {
          TBOX_ERROR(... "  buffer overrun." ...);
      }
  }
  return ptr;
  \<close>
  The returned pointer is the address of the old cursor, \<open>sint (d_buffer_index s)\<close> bytes
  from the start of the buffer. The addition is the 32-bit one and the two comparisons
  are signed.
\<close>

definition getPointerAndAdvanceCursor ::
    "stream \<Rightarrow> int32 \<Rightarrow> (error \<times> stream) + (int \<times> stream)" where
  "getPointerAndAdvanceCursor s bytes =
     (let ptr = sint (d_buffer_index s);
          s1 = s\<lparr>d_buffer_index := d_buffer_index s + bytes\<rparr>
      in if sint (d_buffer_index s1) > sint (d_current_size s1)
         then (let s2 = s1\<lparr>d_current_size := d_buffer_index s1\<rparr>
               in if sint (d_buffer_index s2) > sint (d_buffer_size s2)
                  then Inl (BufferOverrun, s2)
                  else Inr (ptr, s2))
         else Inr (ptr, s1))"

section \<open>Raw copies\<close>

text \<open>
  \<^verbatim>\<open>std::memcpy(ptr, m_data, m_bytes)\<close> into the stream's memory, and
  \<^verbatim>\<open>std::memcpy(m_data, ptr, m_bytes)\<close> out of it, byte by byte from the lowest address.
  The caller's array is the list of its bytes.
\<close>

fun memcpy_in :: "memory \<Rightarrow> int \<Rightarrow> byte list \<Rightarrow> memory" where
  "memcpy_in mem ptr [] = mem"
| "memcpy_in mem ptr (b # bs) = memcpy_in (mem(ptr := b)) (ptr + 1) bs"

fun memcpy_out :: "memory \<Rightarrow> int \<Rightarrow> nat \<Rightarrow> byte list" where
  "memcpy_out mem ptr 0 = []"
| "memcpy_out mem ptr (Suc n) = mem ptr # memcpy_out mem (ptr + 1) n"

text \<open>
  \<^verbatim>\<open>__pack(m_data, m_bytes)\<close> and \<^verbatim>\<open>__unpack(m_data, m_bytes)\<close> of the source (a name
  cannot start with an underscore here). \<open>m_bytes\<close> is an \<^verbatim>\<open>unsigned int\<close>: the same 32
  bits are handed to the primitive as its \<^verbatim>\<open>int\<close> argument, and \<open>memcpy\<close> copies
  \<open>unat m_bytes\<close> bytes. When the primitive raises the error the copy is never reached.
\<close>

definition raw_pack :: "stream \<Rightarrow> byte list \<Rightarrow> int32 \<Rightarrow> (error \<times> stream) + stream" where
  "raw_pack s m_data m_bytes =
     (case getPointerAndAdvanceCursor s m_bytes of
        Inl err \<Rightarrow> Inl err
      | Inr (ptr, s') \<Rightarrow>
          Inr (s'\<lparr>d_buffer := memcpy_in (d_buffer s') ptr (take (unat m_bytes) m_data)\<rparr>))"

definition raw_unpack :: "stream \<Rightarrow> int32 \<Rightarrow> (error \<times> stream) + (byte list \<times> stream)" where
  "raw_unpack s m_bytes =
     (case getPointerAndAdvanceCursor s m_bytes of
        Inl err \<Rightarrow> Inl err
      | Inr (ptr, s') \<Rightarrow> Inr (memcpy_out (d_buffer s') ptr (unat m_bytes), s'))"

section \<open>Object representations of the raw-copied kinds\<close>

text \<open>
  A raw copy moves the object representation of the caller's values. An \<^verbatim>\<open>int\<close> and a
  \<^verbatim>\<open>float\<close> are 32 bits, a \<^verbatim>\<open>double\<close> is 64 bits, a \<^verbatim>\<open>dcomplex\<close> is a pair of
  doubles (real part first); a floating-point value is identified with its bit pattern,
  which is all that a byte copy can observe. The bytes are laid out in the machine's
  native order, taken to be little-endian here.
\<close>

definition bytes_of_word :: "nat \<Rightarrow> 'a::len word \<Rightarrow> byte list" where
  "bytes_of_word k w = map (\<lambda>i. ucast (drop_bit (8 * i) w)) [0..<k]"

fun word_of_bytes :: "byte list \<Rightarrow> 'a::len word" where
  "word_of_bytes [] = 0"
| "word_of_bytes (b # bs) = ucast b OR push_bit 8 (word_of_bytes bs)"

type_synonym dcomplex = "64 word \<times> 64 word"

definition bytes_of_dcomplex :: "dcomplex \<Rightarrow> byte list" where
  "bytes_of_dcomplex z = bytes_of_word 8 (fst z) @ bytes_of_word 8 (snd z)"

definition dcomplex_of_bytes :: "byte list \<Rightarrow> dcomplex" where
  "dcomplex_of_bytes bs = (word_of_bytes (take 8 bs), word_of_bytes (take 8 (drop 8 bs)))"

text \<open>An array of \<open>n\<close> objects of \<open>w\<close> bytes each, read back from its bytes.\<close>

fun array_of_bytes :: "(byte list \<Rightarrow> 'a) \<Rightarrow> nat \<Rightarrow> nat \<Rightarrow> byte list \<Rightarrow> 'a list" where
  "array_of_bytes f w 0 bs = []"
| "array_of_bytes f w (Suc n) bs = f (take w bs) # array_of_bytes f w n (drop w bs)"

definition bytes_of_array :: "('a \<Rightarrow> byte list) \<Rightarrow> 'a list \<Rightarrow> byte list" where
  "bytes_of_array g xs = concat (map g xs)"

section \<open>Typed packing and unpacking\<close>

text \<open>
  In \<^verbatim>\<open>pack(const T* data, const int n)\<close> the array and its count are modelled together:
  the list \<open>data\<close> holds the \<open>n\<close> elements, and the \<^verbatim>\<open>int\<close> that the code receives is
  \<open>of_nat (length data)\<close>. In \<^verbatim>\<open>unpack(T* data, const int n)\<close> the count is a natural
  number, received as \<open>of_nat n\<close>, and the values written to the caller's array are
  returned: the elements that the copy has overwritten, which are all \<open>n\<close> of them unless
  the 32-bit byte count has wrapped around. When the call fails nothing is returned, the
  caller's array is untouched.
  Counts are meant to be those an \<^verbatim>\<open>int\<close> holds (at most 2147483647); negative counts
  are outside the model. The stream operators \<^verbatim>\<open>operator<<(data)\<close> and
  \<^verbatim>\<open>operator>>(data)\<close> are \<^verbatim>\<open>pack(&data, 1)\<close> and \<^verbatim>\<open>unpack(&data, 1)\<close>: the array of one
  element.
\<close>

subsection \<open>Booleans\<close>

text \<open>The two loops: \<^verbatim>\<open>c_ptr[i] = (data[i] ? 1 : 0)\<close> and \<^verbatim>\<open>data[i] = (c_ptr[i] == 1)\<close>.\<close>

fun pack_bool_loop :: "memory \<Rightarrow> int \<Rightarrow> bool list \<Rightarrow> memory" where
  "pack_bool_loop mem c_ptr [] = mem"
| "pack_bool_loop mem c_ptr (b # data) =
     pack_bool_loop (mem(c_ptr := (if b then 1 else 0))) (c_ptr + 1) data"

fun unpack_bool_loop :: "memory \<Rightarrow> int \<Rightarrow> nat \<Rightarrow> bool list" where
  "unpack_bool_loop mem c_ptr 0 = []"
| "unpack_bool_loop mem c_ptr (Suc n) = (mem c_ptr = 1) # unpack_bool_loop mem (c_ptr + 1) n"

definition pack_bool :: "stream \<Rightarrow> bool list \<Rightarrow> (error \<times> stream) + stream" where
  "pack_bool s data =
     (let bytes = sizeofBool (of_nat (length data))
      in case getPointerAndAdvanceCursor s bytes of
           Inl err \<Rightarrow> Inl err
         | Inr (ptr, s') \<Rightarrow> Inr (s'\<lparr>d_buffer := pack_bool_loop (d_buffer s') ptr data\<rparr>))"

definition unpack_bool :: "stream \<Rightarrow> nat \<Rightarrow> (error \<times> stream) + (bool list \<times> stream)" where
  "unpack_bool s n =
     (let bytes = sizeofBool (of_nat n)
      in case getPointerAndAdvanceCursor s bytes of
           Inl err \<Rightarrow> Inl err
         | Inr (ptr, s') \<Rightarrow> Inr (unpack_bool_loop (d_buffer s') ptr n, s'))"

subsection \<open>Characters\<close>

definition pack_char :: "stream \<Rightarrow> byte list \<Rightarrow> (error \<times> stream) + stream" where
  "pack_char s data =
     (let bytes = sizeofChar (of_nat (length data))
      in raw_pack s data bytes)"

definition unpack_char :: "stream \<Rightarrow> nat \<Rightarrow> (error \<times> stream) + (byte list \<times> stream)" where
  "unpack_char s n =
     (let bytes = sizeofChar (of_nat n)
      in raw_unpack s bytes)"

subsection \<open>Double complex\<close>

definition pack_dcomplex :: "stream \<Rightarrow> dcomplex list \<Rightarrow> (error \<times> stream) + stream" where
  "pack_dcomplex s data =
     (let bytes = sizeofDoubleComplex (of_nat (length data))
      in raw_pack s (bytes_of_array bytes_of_dcomplex data) bytes)"

definition unpack_dcomplex ::
    "stream \<Rightarrow> nat \<Rightarrow> (error \<times> stream) + (dcomplex list \<times> stream)" where
  "unpack_dcomplex s n =
     (let bytes = sizeofDoubleComplex (of_nat n)
      in case raw_unpack s bytes of
           Inl err \<Rightarrow> Inl err
         | Inr (bs, s') \<Rightarrow> Inr (array_of_bytes dcomplex_of_bytes 16 (length bs div 16) bs, s'))"

subsection \<open>Doubles\<close>

definition pack_double :: "stream \<Rightarrow> 64 word list \<Rightarrow> (error \<times> stream) + stream" where
  "pack_double s data =
     (let bytes = sizeofDouble (of_nat (length data))
      in raw_pack s (bytes_of_array (bytes_of_word 8) data) bytes)"

definition unpack_double ::
    "stream \<Rightarrow> nat \<Rightarrow> (error \<times> stream) + (64 word list \<times> stream)" where
  "unpack_double s n =
     (let bytes = sizeofDouble (of_nat n)
      in case raw_unpack s bytes of
           Inl err \<Rightarrow> Inl err
         | Inr (bs, s') \<Rightarrow> Inr (array_of_bytes word_of_bytes 8 (length bs div 8) bs, s'))"

subsection \<open>Floats\<close>

definition pack_float :: "stream \<Rightarrow> 32 word list \<Rightarrow> (error \<times> stream) + stream" where
  "pack_float s data =
     (let bytes = sizeofFloat (of_nat (length data))
      in raw_pack s (bytes_of_array (bytes_of_word 4) data) bytes)"

definition unpack_float ::
    "stream \<Rightarrow> nat \<Rightarrow> (error \<times> stream) + (32 word list \<times> stream)" where
  "unpack_float s n =
     (let bytes = sizeofFloat (of_nat n)
      in case raw_unpack s bytes of
           Inl err \<Rightarrow> Inl err
         | Inr (bs, s') \<Rightarrow> Inr (array_of_bytes word_of_bytes 4 (length bs div 4) bs, s'))"

subsection \<open>Integers\<close>

definition pack_int :: "stream \<Rightarrow> 32 word list \<Rightarrow> (error \<times> stream) + stream" where
  "pack_int s data =
     (let bytes = sizeofInt (of_nat (length data))
      in raw_pack s (bytes_of_array (bytes_of_word 4) data) bytes)"

definition unpack_int ::
    "stream \<Rightarrow> nat \<Rightarrow> (error \<times> stream) + (32 word list \<times> stream)" where
  "unpack_int s n =
     (let bytes = sizeofInt (of_nat n)
      in case raw_unpack s bytes of
           Inl err \<Rightarrow> Inl err
         | Inr (bs, s') \<Rightarrow> Inr (array_of_bytes word_of_bytes 4 (length bs div 4) bs, s'))"

section \<open>The operations as one interface\<close>

text \<open>
  The six primitive kinds, an array of values of one kind, and the overloaded
  \<^verbatim>\<open>pack\<close> and \<^verbatim>\<open>unpack\<close> as one function each, which only dispatch on the kind.
\<close>

datatype kind = KBool | KChar | KDoubleComplex | KDouble | KFloat | KInt

datatype data =
    BoolArray "bool list"
  | CharArray "byte list"
  | DoubleComplexArray "dcomplex list"
  | DoubleArray "64 word list"
  | FloatArray "32 word list"
  | IntArray "32 word list"

fun kind_of :: "data \<Rightarrow> kind" where
  "kind_of (BoolArray xs) = KBool"
| "kind_of (CharArray xs) = KChar"
| "kind_of (DoubleComplexArray xs) = KDoubleComplex"
| "kind_of (DoubleArray xs) = KDouble"
| "kind_of (FloatArray xs) = KFloat"
| "kind_of (IntArray xs) = KInt"

fun count :: "data \<Rightarrow> nat" where
  "count (BoolArray xs) = length xs"
| "count (CharArray xs) = length xs"
| "count (DoubleComplexArray xs) = length xs"
| "count (DoubleArray xs) = length xs"
| "count (FloatArray xs) = length xs"
| "count (IntArray xs) = length xs"

fun sizeof :: "kind \<Rightarrow> int32 \<Rightarrow> int32" where
  "sizeof KBool n = sizeofBool n"
| "sizeof KChar n = sizeofChar n"
| "sizeof KDoubleComplex n = sizeofDoubleComplex n"
| "sizeof KDouble n = sizeofDouble n"
| "sizeof KFloat n = sizeofFloat n"
| "sizeof KInt n = sizeofInt n"

text \<open>
  The packed width of one element and the packed size of an array, as numbers: the
  width times the count, without wrap-around. \<open>requested k n\<close> is the 32-bit byte count
  that a call for \<open>n\<close> elements of kind \<open>k\<close> hands to the primitive.
\<close>

definition packed_width :: "kind \<Rightarrow> int" where
  "packed_width k = sint (sizeof k 1)"

definition packed_size :: "data \<Rightarrow> int" where
  "packed_size d = packed_width (kind_of d) * int (count d)"

definition requested :: "kind \<Rightarrow> nat \<Rightarrow> int32" where
  "requested k n = sizeof k (of_nat n)"

fun pack :: "stream \<Rightarrow> data \<Rightarrow> (error \<times> stream) + stream" where
  "pack s (BoolArray xs) = pack_bool s xs"
| "pack s (CharArray xs) = pack_char s xs"
| "pack s (DoubleComplexArray xs) = pack_dcomplex s xs"
| "pack s (DoubleArray xs) = pack_double s xs"
| "pack s (FloatArray xs) = pack_float s xs"
| "pack s (IntArray xs) = pack_int s xs"

definition returning ::
    "('a \<Rightarrow> data) \<Rightarrow> (error \<times> stream) + ('a \<times> stream) \<Rightarrow> (error \<times> stream) + (data \<times> stream)" where
  "returning c r = (case r of Inl err \<Rightarrow> Inl err | Inr (xs, s') \<Rightarrow> Inr (c xs, s'))"

fun unpack :: "stream \<Rightarrow> kind \<Rightarrow> nat \<Rightarrow> (error \<times> stream) + (data \<times> stream)" where
  "unpack s KBool n = returning BoolArray (unpack_bool s n)"
| "unpack s KChar n = returning CharArray (unpack_char s n)"
| "unpack s KDoubleComplex n = returning DoubleComplexArray (unpack_dcomplex s n)"
| "unpack s KDouble n = returning DoubleArray (unpack_double s n)"
| "unpack s KFloat n = returning FloatArray (unpack_float s n)"
| "unpack s KInt n = returning IntArray (unpack_int s n)"

text \<open>A call of the public interface, what it hands back, and a sequence of calls.\<close>

datatype op =
    Pack data
  | Unpack kind nat
  | SetCurrentIndex int32
  | ResetIndex
  | GetCurrentSize
  | GetCurrentIndex
  | GetBufferStart

datatype answer = Nothing | Values data | Number int32 | Address int

fun apply_op :: "stream \<Rightarrow> op \<Rightarrow> (error \<times> stream) + (answer \<times> stream)" where
  "apply_op s (Pack d) = (case pack s d of Inl err \<Rightarrow> Inl err | Inr s' \<Rightarrow> Inr (Nothing, s'))"
| "apply_op s (Unpack k n) =
     (case unpack s k n of Inl err \<Rightarrow> Inl err | Inr (d, s') \<Rightarrow> Inr (Values d, s'))"
| "apply_op s (SetCurrentIndex i) = Inr (Nothing, setCurrentIndex s i)"
| "apply_op s ResetIndex = Inr (Nothing, resetIndex s)"
| "apply_op s GetCurrentSize = Inr (Number (getCurrentSize s), s)"
| "apply_op s GetCurrentIndex = Inr (Number (getCurrentIndex s), s)"
| "apply_op s GetBufferStart = Inr (Address (getBufferStart s), s)"

text \<open>The error is fatal: a sequence of calls ends at the first call that raises it.\<close>

fun run_ops :: "stream \<Rightarrow> op list \<Rightarrow> (error \<times> stream) + stream" where
  "run_ops s [] = Inr s"
| "run_ops s (x # xs) =
     (case apply_op s x of Inl err \<Rightarrow> Inl err | Inr (out, s') \<Rightarrow> run_ops s' xs)"

fun pack_all :: "stream \<Rightarrow> data list \<Rightarrow> (error \<times> stream) + stream" where
  "pack_all s [] = Inr s"
| "pack_all s (d # ds) = (case pack s d of Inl err \<Rightarrow> Inl err | Inr s' \<Rightarrow> pack_all s' ds)"

fun unpack_all ::
    "stream \<Rightarrow> (kind \<times> nat) list \<Rightarrow> (error \<times> stream) + (data list \<times> stream)" where
  "unpack_all s [] = Inr ([], s)"
| "unpack_all s ((k, n) # ks) =
     (case unpack s k n of
        Inl err \<Rightarrow> Inl err
      | Inr (d, s') \<Rightarrow>
          (case unpack_all s' ks of
             Inl err \<Rightarrow> Inl err
           | Inr (ds, s'') \<Rightarrow> Inr (d # ds, s'')))"


section \<open>Construction\<close>

text \<open>
  Modelled from the spec: the constructor is in \<^verbatim>\<open>FixedSizedStream.cpp\<close>, which is not
  among the sources at hand. The spec says that the stream is constructed with a fixed
  capacity, and its scenarios start with the cursor and the current size at 0. The
  capacity is an \<^verbatim>\<open>int\<close> like the field that keeps it; \<open>mem\<close> is the content of memory
  at construction.
\<close>

definition FixedSizedStream :: "int32 \<Rightarrow> memory \<Rightarrow> stream" where
  "FixedSizedStream bytes mem =
     \<lparr>d_buffer_size = bytes, d_current_size = 0, d_buffer_index = 0, d_buffer = mem\<rparr>"

text \<open>A memory whose every byte is 0, for the concrete runs below.\<close>

definition zeroed :: memory where
  "zeroed a = 0"

section \<open>What one call stores and reads back\<close>

text \<open>
  Summaries used in the proofs. \<open>stored_bytes\<close> is the object representation of an array
  as \<^verbatim>\<open>pack\<close> finds it in the caller's memory, and \<open>read_back\<close> is the array that
  \<^verbatim>\<open>unpack\<close> leaves in the caller's memory from the bytes it has read. \<open>written_bytes\<close>
  is what a \<^verbatim>\<open>pack\<close> call writes at the old cursor: every element for booleans (the
  loop), the first \<open>unat m_bytes\<close> bytes of the representation for the raw copies.
  \<open>fetched\<close> is the number of bytes an \<^verbatim>\<open>unpack\<close> call reads. That \<open>pack\<close> and \<open>unpack\<close>
  do exactly this is proved below (\<open>pack_eq_if\<close>, \<open>unpack_eq_if\<close>).
\<close>

fun stored_bytes :: "data \<Rightarrow> byte list" where
  "stored_bytes (BoolArray xs) = map (\<lambda>b. if b then 1 else 0) xs"
| "stored_bytes (CharArray xs) = xs"
| "stored_bytes (DoubleComplexArray xs) = bytes_of_array bytes_of_dcomplex xs"
| "stored_bytes (DoubleArray xs) = bytes_of_array (bytes_of_word 8) xs"
| "stored_bytes (FloatArray xs) = bytes_of_array (bytes_of_word 4) xs"
| "stored_bytes (IntArray xs) = bytes_of_array (bytes_of_word 4) xs"

fun read_back :: "kind \<Rightarrow> byte list \<Rightarrow> data" where
  "read_back KBool bs = BoolArray (map (\<lambda>b. b = 1) bs)"
| "read_back KChar bs = CharArray bs"
| "read_back KDoubleComplex bs =
     DoubleComplexArray (array_of_bytes dcomplex_of_bytes 16 (length bs div 16) bs)"
| "read_back KDouble bs = DoubleArray (array_of_bytes word_of_bytes 8 (length bs div 8) bs)"
| "read_back KFloat bs = FloatArray (array_of_bytes word_of_bytes 4 (length bs div 4) bs)"
| "read_back KInt bs = IntArray (array_of_bytes word_of_bytes 4 (length bs div 4) bs)"

fun written_bytes :: "data \<Rightarrow> byte list" where
  "written_bytes (BoolArray xs) = stored_bytes (BoolArray xs)"
| "written_bytes d = take (unat (requested (kind_of d) (count d))) (stored_bytes d)"

fun fetched :: "kind \<Rightarrow> nat \<Rightarrow> nat" where
  "fetched KBool n = n"
| "fetched k n = unat (requested k n)"

text \<open>
  Two views of a run, for the statements about the high-water mark: the cursor after each
  call of the run, and the cursor after each \<^verbatim>\<open>pack\<close> or \<^verbatim>\<open>unpack\<close> of the run only, as
  the numbers the program compares.
\<close>

fun cursors_reached :: "stream \<Rightarrow> op list \<Rightarrow> int list" where
  "cursors_reached s [] = []"
| "cursors_reached s (x # xs) =
     (case apply_op s x of
        Inl (err, s') \<Rightarrow> [sint (d_buffer_index s')]
      | Inr (out, s') \<Rightarrow> sint (d_buffer_index s') # cursors_reached s' xs)"

fun is_transfer :: "op \<Rightarrow> bool" where
  "is_transfer (Pack d) = True"
| "is_transfer (Unpack k n) = True"
| "is_transfer x = False"

fun cursors_advanced_to :: "stream \<Rightarrow> op list \<Rightarrow> int list" where
  "cursors_advanced_to s [] = []"
| "cursors_advanced_to s (x # xs) =
     (case apply_op s x of
        Inl (err, s') \<Rightarrow> [sint (d_buffer_index s')]
      | Inr (out, s') \<Rightarrow>
          (if is_transfer x then [sint (d_buffer_index s')] else []) @ cursors_advanced_to s' xs)"

section \<open>Properties of the building blocks\<close>

lemma getPointerAndAdvanceCursor_eq:
  "getPointerAndAdvanceCursor s bytes =
     (if sint (d_current_size s) < sint (d_buffer_index s + bytes)
         \<and> sint (d_buffer_size s) < sint (d_buffer_index s + bytes)
      then Inl (BufferOverrun, s\<lparr>d_buffer_index := d_buffer_index s + bytes,
                                   d_current_size := d_buffer_index s + bytes\<rparr>)
      else Inr (sint (d_buffer_index s),
                s\<lparr>d_buffer_index := d_buffer_index s + bytes,
                  d_current_size :=
                    (if sint (d_current_size s) < sint (d_buffer_index s + bytes)
                     then d_buffer_index s + bytes else d_current_size s)\<rparr>))"
  by (simp add: getPointerAndAdvanceCursor_def Let_def)

lemma memcpy_in_outside:
  "a < ptr \<or> ptr + int (length bs) \<le> a \<Longrightarrow> memcpy_in mem ptr bs a = mem a"
  by (induction bs arbitrary: mem ptr) auto

lemma memcpy_in_inside:
  "i < length bs \<Longrightarrow> memcpy_in mem ptr bs (ptr + int i) = bs ! i"
proof (induction bs arbitrary: mem ptr i)
  case Nil
  then show ?case by simp
next
  case (Cons b bs)
  show ?case
  proof (cases i)
    case 0
    then show ?thesis by (simp add: memcpy_in_outside)
  next
    case (Suc j)
    with Cons.prems have "j < length bs" by simp
    then have "memcpy_in (mem(ptr := b)) (ptr + 1) bs (ptr + 1 + int j) = bs ! j"
      by (rule Cons.IH)
    with Suc show ?thesis by (simp add: add.assoc)
  qed
qed

lemma memcpy_out_eq: "memcpy_out mem ptr n = map (\<lambda>i. mem (ptr + int i)) [0..<n]"
proof (induction mem ptr n rule: memcpy_out.induct)
  case (1 mem ptr)
  then show ?case by simp
next
  case (2 mem ptr n)
  have "map (\<lambda>i. mem (ptr + int i)) [0..<Suc n] = mem ptr # map (\<lambda>i. mem (ptr + 1 + int i)) [0..<n]"
    by (simp add: upt_conv_Cons map_Suc_upt[symmetric] add.assoc del: upt_Suc)
  with 2 show ?case by simp
qed

lemma length_memcpy_out: "length (memcpy_out mem ptr n) = n"
  by (simp add: memcpy_out_eq)

lemma memcpy_out_memcpy_in: "memcpy_out (memcpy_in mem ptr bs) ptr (length bs) = bs"
  by (rule nth_equalityI) (simp_all add: memcpy_out_eq memcpy_in_inside)

lemma memcpy_out_cong:
  "(\<And>a. ptr \<le> a \<Longrightarrow> a < ptr + int n \<Longrightarrow> mem a = mem' a) \<Longrightarrow>
   memcpy_out mem ptr n = memcpy_out mem' ptr n"
  unfolding memcpy_out_eq by (rule map_cong) auto

lemma pack_bool_loop_eq:
  "pack_bool_loop mem c_ptr data = memcpy_in mem c_ptr (map (\<lambda>b. if b then 1 else 0) data)"
  by (induction data arbitrary: mem c_ptr) simp_all

lemma unpack_bool_loop_eq:
  "unpack_bool_loop mem c_ptr n = map (\<lambda>b. b = 1) (memcpy_out mem c_ptr n)"
  by (induction mem c_ptr n rule: unpack_bool_loop.induct) simp_all

lemma bit_push_bit_8_low: "n < 8 \<Longrightarrow> \<not> bit (push_bit 8 (w :: 'a::len word)) n"
  by (simp add: bit_push_bit_iff)

lemma bit_ucast_byte_high: "\<not> n < 8 \<Longrightarrow> \<not> bit (ucast (b::byte) :: 'a::len word) n"
proof
  assume a: "\<not> n < 8" and "bit (ucast b :: 'a word) n"
  then have "bit b n" by (simp add: bit_ucast_iff)
  then have "n < LENGTH(8)" by (rule bit_imp_le_length)
  with a show False by simp
qed

lemma bit_ucast_byte_low:
  "n < 8 \<Longrightarrow> bit (ucast (b::byte) :: 'a::len word) n \<longleftrightarrow> n < LENGTH('a) \<and> bit b n"
  by (simp add: bit_ucast_iff)

lemma bit_push_bit_8_high:
  "\<not> n < 8 \<Longrightarrow> bit (push_bit 8 (w :: 'a::len word)) n \<longleftrightarrow> n < LENGTH('a) \<and> bit w (n - 8)"
  by (simp add: bit_push_bit_iff)

lemma bit_word_of_bytes:
  "bit (word_of_bytes bs :: 'a::len word) n \<longleftrightarrow>
     n < LENGTH('a) \<and> n div 8 < length bs \<and> bit (bs ! (n div 8)) (n mod 8)"
proof (induction bs arbitrary: n)
  case Nil
  then show ?case by simp
next
  case (Cons b bs)
  show ?case
  proof (cases "n < 8")
    case True
    then show ?thesis by (simp add: bit_or_iff bit_push_bit_8_low bit_ucast_byte_low)
  next
    case False
    then obtain m where m: "n = m + 8"
      by (metis add.commute le_Suc_ex not_less)
    have d: "(m + 8) div 8 = Suc (m div 8)" and e: "(m + 8) mod 8 = m mod 8"
      by simp_all
    have "bit (word_of_bytes (b # bs) :: 'a word) n \<longleftrightarrow>
          n < LENGTH('a) \<and> bit (word_of_bytes bs :: 'a word) m"
      using False m by (simp add: bit_or_iff bit_ucast_byte_high bit_push_bit_8_high)
    also have "\<dots> \<longleftrightarrow>
          n < LENGTH('a) \<and> m div 8 < length bs \<and> bit (bs ! (m div 8)) (m mod 8)"
      unfolding Cons.IH[of m] using m by auto
    also have "\<dots> \<longleftrightarrow>
          n < LENGTH('a) \<and> n div 8 < length (b # bs) \<and> bit ((b # bs) ! (n div 8)) (n mod 8)"
      unfolding m d e by simp
    finally show ?thesis .
  qed
qed

lemma word_of_bytes_of_word:
  assumes "LENGTH('a::len) \<le> 8 * k"
  shows "word_of_bytes (bytes_of_word k (w :: 'a word)) = w"
proof (rule bit_word_eqI)
  fix n assume n: "n < LENGTH('a)"
  then have "n div 8 < k" using assms by (simp add: less_mult_imp_div_less mult.commute)
  then show "bit (word_of_bytes (bytes_of_word k w) :: 'a word) n = bit w n"
    using n by (simp add: bit_word_of_bytes bytes_of_word_def bit_ucast_iff bit_drop_bit_eq)
qed

lemma length_bytes_of_word: "length (bytes_of_word k w) = k"
  by (simp add: bytes_of_word_def)

lemma length_bytes_of_dcomplex: "length (bytes_of_dcomplex z) = 16"
  by (simp add: bytes_of_dcomplex_def length_bytes_of_word)

lemma dcomplex_of_bytes_of_dcomplex: "dcomplex_of_bytes (bytes_of_dcomplex z) = z"
  by (simp add: dcomplex_of_bytes_def bytes_of_dcomplex_def length_bytes_of_word
      word_of_bytes_of_word)

lemma length_bytes_of_array:
  "(\<And>x. length (g x) = w) \<Longrightarrow> length (bytes_of_array g xs) = w * length xs"
  by (induction xs) (simp_all add: bytes_of_array_def)

lemma array_of_bytes_of_array:
  assumes "\<And>x. length (g x) = w" and "\<And>x. f (g x) = x"
  shows "array_of_bytes f w (length xs) (bytes_of_array g xs) = xs"
  using assms by (induction xs) (simp_all add: bytes_of_array_def)

lemma sint_int32_bounds:
  "- 2147483648 \<le> sint (w :: int32)" "sint (w :: int32) \<le> 2147483647"
  using sint_ge [of w] sint_lt [of w] by simp_all

lemma sint_word_of_int_int32:
  "- 2147483648 \<le> x \<Longrightarrow> x \<le> 2147483647 \<Longrightarrow> sint (word_of_int x :: int32) = x"
  by (simp add: sint_sbintrunc' signed_take_bit_int_eq_self)

lemma int32_add_word_of_int: "(w :: int32) + word_of_int b = word_of_int (sint w + b)"
  by simp

lemma unat_word_of_int_int32:
  "0 \<le> b \<Longrightarrow> b < 4294967296 \<Longrightarrow> unat (word_of_int b :: int32) = nat b"
  by (simp add: unat_eq_nat_uint uint_word_of_int)

lemma sint_advance:
  assumes "0 \<le> b" and "sint (w :: int32) + b \<le> 2147483647"
  shows "sint (w + word_of_int b) = sint w + b"
proof -
  have "- 2147483648 \<le> sint w + b"
    using assms(1) sint_int32_bounds(1) [of w] by linarith
  then show ?thesis
    unfolding int32_add_word_of_int using assms(2) by (rule sint_word_of_int_int32)
qed

lemma packed_width_simps:
  "packed_width KBool = 1" "packed_width KChar = 1" "packed_width KDoubleComplex = 16"
  "packed_width KDouble = 8" "packed_width KFloat = 4" "packed_width KInt = 4"
  by (simp_all add: packed_width_def sizeofBool_def sizeofChar_def sizeofDoubleComplex_def
      sizeofDouble_def sizeofFloat_def sizeofInt_def)

lemma packed_width_pos: "0 < packed_width k"
  by (cases k) (simp_all add: packed_width_simps)

lemma packed_size_nonneg: "0 \<le> packed_size d"
  using packed_width_pos [of "kind_of d"] by (simp add: packed_size_def)

lemma requested_eq: "requested k n = word_of_int (packed_width k * int n)"
  by (cases k)
    (simp_all add: requested_def packed_width_simps sizeofBool_def sizeofChar_def
      sizeofDoubleComplex_def sizeofDouble_def sizeofFloat_def sizeofInt_def mult.commute)

lemma requested_packed_size: "requested (kind_of d) (count d) = word_of_int (packed_size d)"
  by (simp add: requested_eq packed_size_def)

lemma length_stored_bytes: "int (length (stored_bytes d)) = packed_size d"
  by (cases d)
    (simp_all add: packed_size_def packed_width_simps
      length_bytes_of_array[where w = 16] length_bytes_of_array[where w = 8]
      length_bytes_of_array[where w = 4] length_bytes_of_word length_bytes_of_dcomplex)

lemma written_bytes_eq:
  assumes "packed_size d < 4294967296"
  shows "written_bytes d = stored_bytes d"
proof -
  have "unat (requested (kind_of d) (count d)) = length (stored_bytes d)"
    using assms packed_size_nonneg [of d] length_stored_bytes [of d]
    by (simp add: requested_packed_size unat_word_of_int_int32)
  then show ?thesis by (cases d) simp_all
qed

lemma fetched_eq:
  assumes "packed_width k * int n < 4294967296"
  shows "fetched k n = nat (packed_width k * int n)"
proof -
  have "0 \<le> packed_width k * int n"
    using packed_width_pos [of k] by simp
  then have "unat (requested k n) = nat (packed_width k * int n)"
    unfolding requested_eq using assms by (rule unat_word_of_int_int32)
  then show ?thesis by (cases k) (simp_all add: packed_width_simps)
qed

lemma read_back_stored_bytes: "read_back (kind_of d) (stored_bytes d) = d"
proof (cases d)
  case (BoolArray xs)
  have "map ((\<lambda>b. b = 1) \<circ> (\<lambda>b. if b then 1 else (0::byte))) xs = xs"
    by (induction xs) simp_all
  with BoolArray show ?thesis by simp
next
  case (CharArray xs)
  then show ?thesis by simp
next
  case (DoubleComplexArray xs)
  then show ?thesis
    by (simp add: array_of_bytes_of_array length_bytes_of_dcomplex dcomplex_of_bytes_of_dcomplex
        length_bytes_of_array [where w = 16])
next
  case (DoubleArray xs)
  then show ?thesis
    by (simp add: array_of_bytes_of_array length_bytes_of_word word_of_bytes_of_word
        length_bytes_of_array [where w = 8])
next
  case (FloatArray xs)
  then show ?thesis
    by (simp add: array_of_bytes_of_array length_bytes_of_word word_of_bytes_of_word
        length_bytes_of_array [where w = 4])
next
  case (IntArray xs)
  then show ?thesis
    by (simp add: array_of_bytes_of_array length_bytes_of_word word_of_bytes_of_word
        length_bytes_of_array [where w = 4])
qed

lemma pack_eq_if:
  "pack s d =
     (if sint (d_current_size s) < sint (d_buffer_index s + requested (kind_of d) (count d))
         \<and> sint (d_buffer_size s) < sint (d_buffer_index s + requested (kind_of d) (count d))
      then Inl (BufferOverrun,
                s\<lparr>d_buffer_index := d_buffer_index s + requested (kind_of d) (count d),
                  d_current_size := d_buffer_index s + requested (kind_of d) (count d)\<rparr>)
      else Inr (s\<lparr>d_buffer_index := d_buffer_index s + requested (kind_of d) (count d),
                  d_current_size :=
                    (if sint (d_current_size s)
                          < sint (d_buffer_index s + requested (kind_of d) (count d))
                     then d_buffer_index s + requested (kind_of d) (count d)
                     else d_current_size s),
                  d_buffer := memcpy_in (d_buffer s) (sint (d_buffer_index s))
                                (written_bytes d)\<rparr>))"
  by (cases d)
    (simp_all add: pack_bool_def pack_char_def pack_dcomplex_def pack_double_def
      pack_float_def pack_int_def raw_pack_def Let_def requested_def pack_bool_loop_eq
      getPointerAndAdvanceCursor_eq)

lemma unpack_eq_if:
  "unpack s k n =
     (if sint (d_current_size s) < sint (d_buffer_index s + requested k n)
         \<and> sint (d_buffer_size s) < sint (d_buffer_index s + requested k n)
      then Inl (BufferOverrun,
                s\<lparr>d_buffer_index := d_buffer_index s + requested k n,
                  d_current_size := d_buffer_index s + requested k n\<rparr>)
      else Inr (read_back k
                  (memcpy_out (d_buffer s) (sint (d_buffer_index s)) (fetched k n)),
                s\<lparr>d_buffer_index := d_buffer_index s + requested k n,
                  d_current_size :=
                    (if sint (d_current_size s) < sint (d_buffer_index s + requested k n)
                     then d_buffer_index s + requested k n
                     else d_current_size s)\<rparr>))"
  by (cases k)
    (simp_all add: unpack_bool_def unpack_char_def unpack_dcomplex_def unpack_double_def
      unpack_float_def unpack_int_def raw_unpack_def Let_def returning_def unpack_bool_loop_eq
      requested_def getPointerAndAdvanceCursor_eq sizeofBool_def length_memcpy_out)

lemma pack_Inl_iff:
  "pack s d = Inl (e, s') \<longleftrightarrow>
     getPointerAndAdvanceCursor s (requested (kind_of d) (count d)) = Inl (e, s')"
  by (auto simp: pack_eq_if getPointerAndAdvanceCursor_eq)

lemma unpack_Inl_iff:
  "unpack s k n = Inl (e, s') \<longleftrightarrow> getPointerAndAdvanceCursor s (requested k n) = Inl (e, s')"
  by (auto simp: unpack_eq_if getPointerAndAdvanceCursor_eq)

lemma getPointerAndAdvanceCursor_Inl:
  assumes "getPointerAndAdvanceCursor s bytes = Inl (e, s')"
  shows "d_buffer_index s' = d_buffer_index s + bytes"
    and "d_current_size s' = d_buffer_index s + bytes"
    and "d_buffer_size s' = d_buffer_size s"
    and "d_buffer s' = d_buffer s"
    and "sint (d_buffer_size s) < sint (d_buffer_index s + bytes)"
    and "sint (d_current_size s) < sint (d_buffer_index s + bytes)"
  using assms by (auto simp: getPointerAndAdvanceCursor_eq split: if_splits)


lemma pack_Inr:
  assumes "pack s d = Inr s'"
  shows "d_buffer_index s' = d_buffer_index s + requested (kind_of d) (count d)"
    and "d_buffer_size s' = d_buffer_size s"
    and "d_buffer s' = memcpy_in (d_buffer s) (sint (d_buffer_index s)) (written_bytes d)"
  using assms
  by (auto simp: pack_eq_if split: if_splits)

lemma sint_word_of_int_wrapped:
  assumes "2147483648 \<le> x" and "x \<le> 6442450943"
  shows "sint (word_of_int x :: int32) = x - 4294967296"
proof -
  have "(word_of_int x :: int32) = word_of_int (x - 4294967296)"
    by simp
  then have "sint (word_of_int x :: int32) = sint (word_of_int (x - 4294967296) :: int32)"
    by (rule arg_cong)
  also have "\<dots> = x - 4294967296"
    using assms by (intro sint_word_of_int_int32) simp_all
  finally show ?thesis .
qed

lemma overrun_without_overflow:
  assumes "sint (d_buffer_size s) < sint (d_buffer_index s + word_of_int b)"
    and "0 \<le> sint (d_buffer_size s)" and "0 \<le> b" and "b \<le> 2147483647"
  shows "sint (d_buffer_index s + word_of_int b) = sint (d_buffer_index s) + b"
proof (cases "sint (d_buffer_index s) + b \<le> 2147483647")
  case True
  with assms(3) show ?thesis by (rule sint_advance)
next
  case False
  have "sint (d_buffer_index s) + b \<le> 6442450943"
    using sint_int32_bounds(2) [of "d_buffer_index s"] assms(4) by linarith
  with False have "sint (word_of_int (sint (d_buffer_index s) + b) :: int32)
      = sint (d_buffer_index s) + b - 4294967296"
    by (intro sint_word_of_int_wrapped) simp_all
  then have "sint (d_buffer_index s + word_of_int b) < 0"
    unfolding int32_add_word_of_int
    using sint_int32_bounds(2) [of "d_buffer_index s"] assms(4) by linarith
  with assms(1,2) show ?thesis by linarith
qed








lemma pack_step:
  assumes "sint (d_buffer_index s) + packed_size d \<le> sint (d_buffer_size s)"
  shows "pack s d =
           Inr (s\<lparr>d_buffer_index := d_buffer_index s + word_of_int (packed_size d),
                  d_current_size :=
                    (if sint (d_current_size s) < sint (d_buffer_index s) + packed_size d
                     then d_buffer_index s + word_of_int (packed_size d)
                     else d_current_size s),
                  d_buffer := memcpy_in (d_buffer s) (sint (d_buffer_index s))
                                (stored_bytes d)\<rparr>)"
    and "sint (d_buffer_index s + word_of_int (packed_size d))
           = sint (d_buffer_index s) + packed_size d"
proof -
  have fit: "sint (d_buffer_index s) + packed_size d \<le> 2147483647"
    using assms sint_int32_bounds(2) [of "d_buffer_size s"] by linarith
  with packed_size_nonneg [of d]
  show adv: "sint (d_buffer_index s + word_of_int (packed_size d))
           = sint (d_buffer_index s) + packed_size d"
    by (rule sint_advance)
  have "packed_size d < 4294967296"
    using fit sint_int32_bounds(1) [of "d_buffer_index s"] by linarith
  then have w: "written_bytes d = stored_bytes d"
    by (rule written_bytes_eq)
  show "pack s d =
           Inr (s\<lparr>d_buffer_index := d_buffer_index s + word_of_int (packed_size d),
                  d_current_size :=
                    (if sint (d_current_size s) < sint (d_buffer_index s) + packed_size d
                     then d_buffer_index s + word_of_int (packed_size d)
                     else d_current_size s),
                  d_buffer := memcpy_in (d_buffer s) (sint (d_buffer_index s))
                                (stored_bytes d)\<rparr>)"
    using assms unfolding pack_eq_if requested_packed_size adv w by simp
qed

lemma unpack_step:
  assumes "sint (d_buffer_index s) + packed_width k * int n \<le> sint (d_buffer_size s)"
  shows "unpack s k n =
           Inr (read_back k
                  (memcpy_out (d_buffer s) (sint (d_buffer_index s))
                     (nat (packed_width k * int n))),
                s\<lparr>d_buffer_index := d_buffer_index s + word_of_int (packed_width k * int n),
                  d_current_size :=
                    (if sint (d_current_size s) < sint (d_buffer_index s) + packed_width k * int n
                     then d_buffer_index s + word_of_int (packed_width k * int n)
                     else d_current_size s)\<rparr>)"
proof -
  have nn: "0 \<le> packed_width k * int n"
    using packed_width_pos [of k] by simp
  have fit: "sint (d_buffer_index s) + packed_width k * int n \<le> 2147483647"
    using assms sint_int32_bounds(2) [of "d_buffer_size s"] by linarith
  with nn have adv: "sint (d_buffer_index s + word_of_int (packed_width k * int n))
           = sint (d_buffer_index s) + packed_width k * int n"
    by (rule sint_advance)
  have "packed_width k * int n < 4294967296"
    using fit sint_int32_bounds(1) [of "d_buffer_index s"] by linarith
  then have f: "fetched k n = nat (packed_width k * int n)"
    by (rule fetched_eq)
  show ?thesis
    using assms unfolding unpack_eq_if requested_eq adv f by simp
qed

lemma sum_list_packed_size_nonneg: "0 \<le> sum_list (map packed_size ds)"
  by (induction ds) (simp_all add: packed_size_nonneg)

lemma pack_all_frame:
  "pack_all s ds = Inr s1 \<Longrightarrow>
   sint (d_buffer_index s) + sum_list (map packed_size ds) \<le> sint (d_buffer_size s) \<Longrightarrow>
   a < sint (d_buffer_index s) \<Longrightarrow> d_buffer s1 a = d_buffer s a"
proof (induction ds arbitrary: s)
  case Nil
  then show ?case by simp
next
  case (Cons d ds)
  let ?s' = "s\<lparr>d_buffer_index := d_buffer_index s + word_of_int (packed_size d),
                d_current_size :=
                  (if sint (d_current_size s) < sint (d_buffer_index s) + packed_size d
                   then d_buffer_index s + word_of_int (packed_size d)
                   else d_current_size s),
                d_buffer := memcpy_in (d_buffer s) (sint (d_buffer_index s)) (stored_bytes d)\<rparr>"
  from Cons.prems(2) sum_list_packed_size_nonneg [of ds]
  have fit: "sint (d_buffer_index s) + packed_size d \<le> sint (d_buffer_size s)" by simp
  then have p: "pack s d = Inr ?s'"
    and adv: "sint (d_buffer_index ?s') = sint (d_buffer_index s) + packed_size d"
    by (simp_all add: pack_step)
  from Cons.prems(1) p have r: "pack_all ?s' ds = Inr s1" by simp
  have "d_buffer s1 a = d_buffer ?s' a"
    using r
  proof (rule Cons.IH)
    show "sint (d_buffer_index ?s') + sum_list (map packed_size ds) \<le> sint (d_buffer_size ?s')"
      using Cons.prems(2) unfolding adv by (simp add: add.assoc)
    show "a < sint (d_buffer_index ?s')"
      unfolding adv using Cons.prems(3) packed_size_nonneg [of d] by linarith
  qed
  also have "\<dots> = d_buffer s a"
    using Cons.prems(3) by (simp add: memcpy_in_outside)
  finally show ?case .
qed

lemma pack_all_succeeds:
  "sint (d_buffer_index s) + sum_list (map packed_size ds) \<le> sint (d_buffer_size s) \<Longrightarrow>
   \<exists>s1. pack_all s ds = Inr s1 \<and> d_buffer_size s1 = d_buffer_size s"
proof (induction ds arbitrary: s)
  case Nil
  then show ?case by simp
next
  case (Cons d ds)
  let ?s' = "s\<lparr>d_buffer_index := d_buffer_index s + word_of_int (packed_size d),
                d_current_size :=
                  (if sint (d_current_size s) < sint (d_buffer_index s) + packed_size d
                   then d_buffer_index s + word_of_int (packed_size d)
                   else d_current_size s),
                d_buffer := memcpy_in (d_buffer s) (sint (d_buffer_index s)) (stored_bytes d)\<rparr>"
  from Cons.prems sum_list_packed_size_nonneg [of ds]
  have fit: "sint (d_buffer_index s) + packed_size d \<le> sint (d_buffer_size s)" by simp
  then have p: "pack s d = Inr ?s'"
    and adv: "sint (d_buffer_index ?s') = sint (d_buffer_index s) + packed_size d"
    by (simp_all add: pack_step)
  have "sint (d_buffer_index ?s') + sum_list (map packed_size ds) \<le> sint (d_buffer_size ?s')"
    using Cons.prems unfolding adv by (simp add: add.assoc)
  from Cons.IH [OF this] p show ?case by auto
qed

lemma unpack_all_after_pack_all:
  assumes "pack_all s ds = Inr s1"
    and "d_buffer_index t = d_buffer_index s"
    and "d_buffer_size t = d_buffer_size s"
    and "sint (d_buffer_index s) + sum_list (map packed_size ds) \<le> sint (d_buffer_size s)"
    and "\<And>a. sint (d_buffer_index s) \<le> a \<Longrightarrow> d_buffer t a = d_buffer s1 a"
  shows "\<exists>t'. unpack_all t (map (\<lambda>d. (kind_of d, count d)) ds) = Inr (ds, t')"
  using assms
proof (induction ds arbitrary: s t)
  case Nil
  then show ?case by simp
next
  case (Cons d ds)
  let ?i = "sint (d_buffer_index s)"
  let ?s' = "s\<lparr>d_buffer_index := d_buffer_index s + word_of_int (packed_size d),
                d_current_size :=
                  (if sint (d_current_size s) < ?i + packed_size d
                   then d_buffer_index s + word_of_int (packed_size d)
                   else d_current_size s),
                d_buffer := memcpy_in (d_buffer s) ?i (stored_bytes d)\<rparr>"
  let ?t' = "t\<lparr>d_buffer_index := d_buffer_index t + word_of_int (packed_size d),
                d_current_size :=
                  (if sint (d_current_size t) < sint (d_buffer_index t) + packed_size d
                   then d_buffer_index t + word_of_int (packed_size d)
                   else d_current_size t)\<rparr>"
  from Cons.prems(4) sum_list_packed_size_nonneg [of ds]
  have fit: "?i + packed_size d \<le> sint (d_buffer_size s)" by simp
  then have p: "pack s d = Inr ?s'"
    and adv: "sint (d_buffer_index ?s') = ?i + packed_size d"
    by (simp_all add: pack_step)
  from Cons.prems(1) p have r: "pack_all ?s' ds = Inr s1" by simp
  have rest: "sint (d_buffer_index ?s') + sum_list (map packed_size ds) \<le> sint (d_buffer_size ?s')"
    using Cons.prems(4) unfolding adv by (simp add: add.assoc)
  have n: "nat (packed_size d) = length (stored_bytes d)"
    using length_stored_bytes [of d] by linarith
  have "memcpy_out (d_buffer t) ?i (length (stored_bytes d))
        = memcpy_out (d_buffer s1) ?i (length (stored_bytes d))"
    by (rule memcpy_out_cong) (rule Cons.prems(5))
  also have "\<dots> = memcpy_out (d_buffer ?s') ?i (length (stored_bytes d))"
  proof (rule memcpy_out_cong)
    fix a assume "a < ?i + int (length (stored_bytes d))"
    then have "a < sint (d_buffer_index ?s')"
      unfolding adv by (simp add: length_stored_bytes)
    with r rest show "d_buffer s1 a = d_buffer ?s' a" by (rule pack_all_frame)
  qed
  also have "\<dots> = stored_bytes d"
    by (simp add: memcpy_out_memcpy_in)
  finally have rd: "memcpy_out (d_buffer t) ?i (nat (packed_size d)) = stored_bytes d"
    by (simp add: n)
  have "sint (d_buffer_index t) + packed_width (kind_of d) * int (count d) \<le> sint (d_buffer_size t)"
    using fit by (simp add: Cons.prems(2,3) packed_size_def)
  then have "unpack t (kind_of d) (count d) =
      Inr (read_back (kind_of d)
             (memcpy_out (d_buffer t) (sint (d_buffer_index t))
                (nat (packed_width (kind_of d) * int (count d)))),
           t\<lparr>d_buffer_index := d_buffer_index t
                 + word_of_int (packed_width (kind_of d) * int (count d)),
             d_current_size :=
               (if sint (d_current_size t)
                     < sint (d_buffer_index t) + packed_width (kind_of d) * int (count d)
                then d_buffer_index t + word_of_int (packed_width (kind_of d) * int (count d))
                else d_current_size t)\<rparr>)"
    by (rule unpack_step)
  then have u: "unpack t (kind_of d) (count d) = Inr (d, ?t')"
    using rd by (simp add: Cons.prems(2) packed_size_def [symmetric] read_back_stored_bytes)
  have "\<exists>t''. unpack_all ?t' (map (\<lambda>d. (kind_of d, count d)) ds) = Inr (ds, t'')"
    using r
  proof (rule Cons.IH)
    show "d_buffer_index ?t' = d_buffer_index ?s'" by (simp add: Cons.prems(2))
    show "d_buffer_size ?t' = d_buffer_size ?s'" by (simp add: Cons.prems(3))
    show "sint (d_buffer_index ?s') + sum_list (map packed_size ds) \<le> sint (d_buffer_size ?s')"
      by (rule rest)
    fix a assume "sint (d_buffer_index ?s') \<le> a"
    then have "?i \<le> a" unfolding adv using packed_size_nonneg [of d] by linarith
    then show "d_buffer ?t' a = d_buffer s1 a" using Cons.prems(5) by simp
  qed
  with u show ?case by auto
qed

lemma roundtrip_from_start:
  assumes "d_buffer_index s = 0" and "sum_list (map packed_size ds) \<le> sint (d_buffer_size s)"
  shows "\<exists>s1 s2. pack_all s ds = Inr s1
           \<and> unpack_all (resetIndex s1) (map (\<lambda>d. (kind_of d, count d)) ds) = Inr (ds, s2)"
proof -
  have fit: "sint (d_buffer_index s) + sum_list (map packed_size ds) \<le> sint (d_buffer_size s)"
    using assms by simp
  then obtain s1 where p: "pack_all s ds = Inr s1" and c: "d_buffer_size s1 = d_buffer_size s"
    using pack_all_succeeds [of s ds] by auto
  have "\<exists>s2. unpack_all (resetIndex s1) (map (\<lambda>d. (kind_of d, count d)) ds) = Inr (ds, s2)"
    using p
  proof (rule unpack_all_after_pack_all)
    show "d_buffer_index (resetIndex s1) = d_buffer_index s"
      by (simp add: resetIndex_def setCurrentIndex_def assms(1))
    show "d_buffer_size (resetIndex s1) = d_buffer_size s"
      by (simp add: resetIndex_def setCurrentIndex_def c)
    show "sint (d_buffer_index s) + sum_list (map packed_size ds) \<le> sint (d_buffer_size s)"
      by (rule fit)
    show "\<And>a. d_buffer (resetIndex s1) a = d_buffer s1 a"
      by (simp add: resetIndex_def setCurrentIndex_def)
  qed
  with p show ?thesis by auto
qed

lemma Max_set_Cons_Cons: "Max (set (a # b # l)) = Max (set (max a b # l))" for a :: int
  by (cases "l = []") (simp_all add: max.assoc)

lemma apply_op_high_water_mark:
  assumes "apply_op s x = Inr (out, t)"
  shows "sint (d_current_size t) =
           (if is_transfer x then max (sint (d_current_size s)) (sint (d_buffer_index t))
            else sint (d_current_size s))"
  using assms
  by (cases x)
    (auto simp: pack_eq_if unpack_eq_if setCurrentIndex_def resetIndex_def
      split: sum.splits if_splits)

lemma high_water_mark_run:
  "run_ops s xs = Inr s' \<Longrightarrow>
   sint (d_current_size s') = Max (set (sint (d_current_size s) # cursors_advanced_to s xs))"
proof (induction xs arbitrary: s)
  case Nil
  then show ?case by simp
next
  case (Cons x xs)
  from Cons.prems obtain out t where t: "apply_op s x = Inr (out, t)" and r: "run_ops t xs = Inr s'"
    by (auto split: sum.splits)
  have ih: "sint (d_current_size s') = Max (set (sint (d_current_size t) # cursors_advanced_to t xs))"
    using r by (rule Cons.IH)
  show ?case
  proof (cases "is_transfer x")
    case True
    then have "sint (d_current_size t) = max (sint (d_current_size s)) (sint (d_buffer_index t))"
      using apply_op_high_water_mark[OF t] by simp
    with True t ih show ?thesis
      by (simp only: cursors_advanced_to.simps sum.case prod.case if_True append.simps
          Max_set_Cons_Cons)
  next
    case False
    then have "sint (d_current_size t) = sint (d_current_size s)"
      using apply_op_high_water_mark[OF t] by simp
    with False t ih show ?thesis by simp
  qed
qed

lemma stored_bytes_IntArray_5: "stored_bytes (IntArray [5]) = [5, 0, 0, 0]"
  by code_simp

lemma written_bytes_IntArray_5: "written_bytes (IntArray [5]) = [5, 0, 0, 0]"
  by (rule trans [OF written_bytes_eq stored_bytes_IntArray_5])
    (simp add: packed_size_def packed_width_simps)

lemma run_pack_then_seek:
  "run_ops (FixedSizedStream 16 zeroed) [Pack (IntArray [5]), SetCurrentIndex 8] =
     Inr \<lparr>d_buffer_size = 16, d_current_size = 4, d_buffer_index = 8,
          d_buffer = memcpy_in zeroed 0 [5, 0, 0, 0]\<rparr>"
  by (simp add: pack_eq_if FixedSizedStream_def requested_def sizeofInt_def
      setCurrentIndex_def written_bytes_IntArray_5 del: written_bytes.simps memcpy_in.simps)

lemma cursors_reached_pack_then_seek:
  "cursors_reached (FixedSizedStream 16 zeroed) [Pack (IntArray [5]), SetCurrentIndex 8] = [4, 8]"
  by (simp add: pack_eq_if FixedSizedStream_def requested_def sizeofInt_def
      setCurrentIndex_def written_bytes_IntArray_5 del: written_bytes.simps memcpy_in.simps)

lemma cursors_advanced_to_pack_then_seek:
  "cursors_advanced_to (FixedSizedStream 16 zeroed) [Pack (IntArray [5]), SetCurrentIndex 8] = [4]"
  by (simp add: pack_eq_if FixedSizedStream_def requested_def sizeofInt_def
      setCurrentIndex_def written_bytes_IntArray_5 del: written_bytes.simps memcpy_in.simps)

lemma pack_bool_eq_if:
  "pack_bool s data =
     (if sint (d_current_size s) < sint (d_buffer_index s + of_nat (length data))
         \<and> sint (d_buffer_size s) < sint (d_buffer_index s + of_nat (length data))
      then Inl (BufferOverrun, s\<lparr>d_buffer_index := d_buffer_index s + of_nat (length data),
                                   d_current_size := d_buffer_index s + of_nat (length data)\<rparr>)
      else Inr (s\<lparr>d_buffer_index := d_buffer_index s + of_nat (length data),
                  d_current_size :=
                    (if sint (d_current_size s) < sint (d_buffer_index s + of_nat (length data))
                     then d_buffer_index s + of_nat (length data) else d_current_size s),
                  d_buffer := memcpy_in (d_buffer s) (sint (d_buffer_index s))
                                (map (\<lambda>b. if b then 1 else 0) data)\<rparr>))"
  by (simp add: pack_bool_def getPointerAndAdvanceCursor_eq sizeofBool_def Let_def
      pack_bool_loop_eq)

lemma unpack_bool_eq_if:
  "unpack_bool s n =
     (if sint (d_current_size s) < sint (d_buffer_index s + of_nat n)
         \<and> sint (d_buffer_size s) < sint (d_buffer_index s + of_nat n)
      then Inl (BufferOverrun, s\<lparr>d_buffer_index := d_buffer_index s + of_nat n,
                                   d_current_size := d_buffer_index s + of_nat n\<rparr>)
      else Inr (map (\<lambda>b. b = 1) (memcpy_out (d_buffer s) (sint (d_buffer_index s)) n),
                s\<lparr>d_buffer_index := d_buffer_index s + of_nat n,
                  d_current_size :=
                    (if sint (d_current_size s) < sint (d_buffer_index s + of_nat n)
                     then d_buffer_index s + of_nat n else d_current_size s)\<rparr>))"
  by (simp add: unpack_bool_def getPointerAndAdvanceCursor_eq sizeofBool_def Let_def
      unpack_bool_loop_eq)

lemma stored_bytes_IntArray_42: "stored_bytes (IntArray [42]) = [42, 0, 0, 0]"
  by code_simp

lemma written_bytes_IntArray_42: "written_bytes (IntArray [42]) = [42, 0, 0, 0]"
  by (rule trans [OF written_bytes_eq stored_bytes_IntArray_42])
    (simp add: packed_size_def packed_width_simps)






section \<open>Cursor repositioning\<close>

text \<open>
  C7. \<^verbatim>\<open>resetIndex()\<close> is exactly \<^verbatim>\<open>setCurrentIndex(0)\<close> and modifies only the cursor:
  afterwards the cursor is 0, while the buffer contents, the capacity and the value of
  \<^verbatim>\<open>getCurrentSize()\<close> (the high-water mark) are what they were before the call.
\<close>

theorem resetIndex_frame:
  "resetIndex s = setCurrentIndex s 0
   \<and> getCurrentIndex (resetIndex s) = 0
   \<and> d_buffer (resetIndex s) = d_buffer s
   \<and> d_buffer_size (resetIndex s) = d_buffer_size s
   \<and> getCurrentSize (resetIndex s) = getCurrentSize s
   \<and> resetIndex s = s\<lparr>d_buffer_index := 0\<rparr>"
  by (simp add: resetIndex_def setCurrentIndex_def getCurrentIndex_def getCurrentSize_def)

section \<open>The overrun error\<close>




text \<open>
  C3. When a \<^verbatim>\<open>pack\<close> or \<^verbatim>\<open>unpack\<close> fails with the buffer-overrun error, no byte of the
  buffer is written and no byte is copied out: the error is the one raised inside the
  cursor-advance primitive, before the caller reads or writes through the pointer, and
  the memory at that moment is the memory before the call. (A failing \<open>unpack\<close> returns no
  values at all.)
\<close>

theorem failed_transfer_touches_no_byte:
  "(pack s d = Inl (e, s') \<longrightarrow>
      getPointerAndAdvanceCursor s (requested (kind_of d) (count d)) = Inl (e, s')
      \<and> d_buffer s' = d_buffer s)
   \<and> (unpack s k n = Inl (e, s') \<longrightarrow>
      getPointerAndAdvanceCursor s (requested k n) = Inl (e, s') \<and> d_buffer s' = d_buffer s)"
  by (auto simp: pack_Inl_iff unpack_Inl_iff getPointerAndAdvanceCursor_Inl)

theorem failed_transfer_touches_no_byte_witness:
  "pack (FixedSizedStream 4 zeroed) (IntArray [1, 2]) =
     Inl (BufferOverrun,
          \<lparr>d_buffer_size = 4, d_current_size = 8, d_buffer_index = 8, d_buffer = zeroed\<rparr>)
   \<and> unpack (FixedSizedStream 4 zeroed) KDouble 1 =
     Inl (BufferOverrun,
          \<lparr>d_buffer_size = 4, d_current_size = 8, d_buffer_index = 8, d_buffer = zeroed\<rparr>)
   \<and> d_buffer \<lparr>d_buffer_size = 4, d_current_size = 8, d_buffer_index = 8, d_buffer = zeroed\<rparr>
       = d_buffer (FixedSizedStream 4 zeroed)"
  using failed_transfer_touches_no_byte [of "FixedSizedStream 4 zeroed" "IntArray [1, 2]"
      BufferOverrun
      "\<lparr>d_buffer_size = 4, d_current_size = 8, d_buffer_index = 8, d_buffer = zeroed\<rparr>"
      KDouble 1]
  by (simp add: pack_eq_if unpack_eq_if requested_def sizeofInt_def sizeofDouble_def
      FixedSizedStream_def)

text \<open>
  C9. The overrun error is not state-atomic: when the primitive, a \<^verbatim>\<open>pack\<close> or an
  \<^verbatim>\<open>unpack\<close> raises the error, the cursor has already been advanced to the old cursor
  plus the requested bytes and the high-water mark has been set to that same value, and
  both exceed the capacity. The first three parts state this in the program's 32-bit
  arithmetic, for every state; the last two state it in numbers, for a capacity that is
  not negative and a request that an \<^verbatim>\<open>int\<close> holds: there the sum did not wrap.
\<close>

theorem overrun_not_state_atomic:
  "(getPointerAndAdvanceCursor s bytes = Inl (e, s') \<longrightarrow>
      d_buffer_index s' = d_buffer_index s + bytes \<and> d_current_size s' = d_buffer_index s + bytes
      \<and> sint (d_buffer_size s') < sint (d_buffer_index s')
      \<and> sint (d_buffer_size s') < sint (d_current_size s'))
   \<and> (pack s d = Inl (e, s') \<longrightarrow>
      d_buffer_index s' = d_buffer_index s + requested (kind_of d) (count d)
      \<and> d_current_size s' = d_buffer_index s + requested (kind_of d) (count d)
      \<and> sint (d_buffer_size s') < sint (d_buffer_index s')
      \<and> sint (d_buffer_size s') < sint (d_current_size s'))
   \<and> (unpack s k n = Inl (e, s') \<longrightarrow>
      d_buffer_index s' = d_buffer_index s + requested k n
      \<and> d_current_size s' = d_buffer_index s + requested k n
      \<and> sint (d_buffer_size s') < sint (d_buffer_index s')
      \<and> sint (d_buffer_size s') < sint (d_current_size s'))
   \<and> (pack s d = Inl (e, s') \<and> 0 \<le> sint (d_buffer_size s) \<and> packed_size d \<le> 2147483647 \<longrightarrow>
      sint (d_buffer_index s') = sint (d_buffer_index s) + packed_size d
      \<and> sint (d_current_size s') = sint (d_buffer_index s) + packed_size d)
   \<and> (unpack s k n = Inl (e, s') \<and> 0 \<le> sint (d_buffer_size s)
        \<and> packed_width k * int n \<le> 2147483647 \<longrightarrow>
      sint (d_buffer_index s') = sint (d_buffer_index s) + packed_width k * int n
      \<and> sint (d_current_size s') = sint (d_buffer_index s) + packed_width k * int n)"
proof (intro conjI impI)
  assume a: "pack s d = Inl (e, s') \<and> 0 \<le> sint (d_buffer_size s) \<and> packed_size d \<le> 2147483647"
  then have g: "getPointerAndAdvanceCursor s (word_of_int (packed_size d)) = Inl (e, s')"
    by (simp add: pack_Inl_iff requested_packed_size)
  have "sint (d_buffer_index s + word_of_int (packed_size d)) = sint (d_buffer_index s) + packed_size d"
    using getPointerAndAdvanceCursor_Inl(5) [OF g] a packed_size_nonneg [of d]
    by (intro overrun_without_overflow) simp_all
  then show "sint (d_buffer_index s') = sint (d_buffer_index s) + packed_size d"
    and "sint (d_current_size s') = sint (d_buffer_index s) + packed_size d"
    by (simp_all add: getPointerAndAdvanceCursor_Inl(1,2) [OF g])
next
  assume a: "unpack s k n = Inl (e, s') \<and> 0 \<le> sint (d_buffer_size s)
        \<and> packed_width k * int n \<le> 2147483647"
  then have g: "getPointerAndAdvanceCursor s (word_of_int (packed_width k * int n)) = Inl (e, s')"
    by (simp add: unpack_Inl_iff requested_eq)
  have "0 \<le> packed_width k * int n"
    using packed_width_pos [of k] by simp
  then have "sint (d_buffer_index s + word_of_int (packed_width k * int n))
      = sint (d_buffer_index s) + packed_width k * int n"
    using getPointerAndAdvanceCursor_Inl(5) [OF g] a
    by (intro overrun_without_overflow) simp_all
  then show "sint (d_buffer_index s') = sint (d_buffer_index s) + packed_width k * int n"
    and "sint (d_current_size s') = sint (d_buffer_index s) + packed_width k * int n"
    by (simp_all add: getPointerAndAdvanceCursor_Inl(1,2) [OF g])
qed (simp_all add: pack_Inl_iff unpack_Inl_iff getPointerAndAdvanceCursor_Inl)

theorem overrun_not_state_atomic_witness:
  "pack (FixedSizedStream 4 zeroed) (IntArray [1, 2]) =
     Inl (BufferOverrun,
          \<lparr>d_buffer_size = 4, d_current_size = 8, d_buffer_index = 8, d_buffer = zeroed\<rparr>)
   \<and> unpack (FixedSizedStream 4 zeroed) KDouble 1 =
     Inl (BufferOverrun,
          \<lparr>d_buffer_size = 4, d_current_size = 8, d_buffer_index = 8, d_buffer = zeroed\<rparr>)
   \<and> getPointerAndAdvanceCursor (FixedSizedStream 4 zeroed) 8 =
     Inl (BufferOverrun,
          \<lparr>d_buffer_size = 4, d_current_size = 8, d_buffer_index = 8, d_buffer = zeroed\<rparr>)
   \<and> d_buffer_index (FixedSizedStream 4 zeroed) + requested KInt 2 = 8
   \<and> sint (d_buffer_index (FixedSizedStream 4 zeroed)) + packed_size (IntArray [1, 2]) = 8
   \<and> sint (d_buffer_index (FixedSizedStream 4 zeroed)) + packed_width KDouble * int 1 = 8
   \<and> 0 \<le> sint (d_buffer_size (FixedSizedStream 4 zeroed))"
  using overrun_not_state_atomic [of "FixedSizedStream 4 zeroed" 8 BufferOverrun
      "\<lparr>d_buffer_size = 4, d_current_size = 8, d_buffer_index = 8, d_buffer = zeroed\<rparr>"
      "IntArray [1, 2]" KDouble 1]
  by (simp add: pack_eq_if unpack_eq_if getPointerAndAdvanceCursor_eq requested_def sizeofInt_def
      sizeofDouble_def FixedSizedStream_def packed_size_def packed_width_simps)

section \<open>Round trip\<close>

text \<open>
  C1. For every supported primitive kind and every count, a sequence of \<^verbatim>\<open>pack\<close> calls
  followed by \<^verbatim>\<open>resetIndex()\<close> and the same sequence of \<^verbatim>\<open>unpack\<close> calls (same kinds,
  same counts, same order) on a sufficiently large buffer hands back exactly the values
  that were packed: equal bit patterns for the raw-copied kinds, equal truth values for
  booleans. The packing starts at cursor 0, where \<^verbatim>\<open>resetIndex()\<close> puts the cursor for
  the unpacking; sufficiently large means that the packed sizes together fit the capacity.
\<close>

theorem pack_unpack_roundtrip:
  assumes "d_buffer_index s = 0" and "sum_list (map packed_size ds) \<le> sint (d_buffer_size s)"
  shows "\<exists>s1 s2. pack_all s ds = Inr s1
           \<and> unpack_all (resetIndex s1) (map (\<lambda>d. (kind_of d, count d)) ds) = Inr (ds, s2)"
  using assms by (rule roundtrip_from_start)

theorem pack_unpack_roundtrip_witness:
  "d_buffer_index (FixedSizedStream 64 zeroed) = 0
   \<and> sum_list (map packed_size
         [BoolArray [True, False], CharArray [7], DoubleComplexArray [(1, 2)],
          DoubleArray [0x40091EB851EB851F], FloatArray [5, 6], IntArray [42]])
       \<le> sint (d_buffer_size (FixedSizedStream 64 zeroed))
   \<and> (\<exists>s1 s2. pack_all (FixedSizedStream 64 zeroed)
         [BoolArray [True, False], CharArray [7], DoubleComplexArray [(1, 2)],
          DoubleArray [0x40091EB851EB851F], FloatArray [5, 6], IntArray [42]] = Inr s1
       \<and> unpack_all (resetIndex s1)
         [(KBool, 2), (KChar, 1), (KDoubleComplex, 1), (KDouble, 1), (KFloat, 2), (KInt, 1)]
         = Inr ([BoolArray [True, False], CharArray [7], DoubleComplexArray [(1, 2)],
                 DoubleArray [0x40091EB851EB851F], FloatArray [5, 6], IntArray [42]], s2))"
proof -
  let ?s = "FixedSizedStream 64 zeroed"
  let ?ds = "[BoolArray [True, False], CharArray [7], DoubleComplexArray [(1, 2)],
              DoubleArray [0x40091EB851EB851F], FloatArray [5, 6], IntArray [42]]"
  have i: "d_buffer_index ?s = 0"
    by (simp add: FixedSizedStream_def)
  have c: "sum_list (map packed_size ?ds) \<le> sint (d_buffer_size ?s)"
    by (simp add: FixedSizedStream_def packed_size_def packed_width_simps)
  have m: "map (\<lambda>d. (kind_of d, count d)) ?ds =
           [(KBool, 2), (KChar, 1), (KDoubleComplex, 1), (KDouble, 1), (KFloat, 2), (KInt, 1)]"
    by simp
  from pack_unpack_roundtrip [OF i c] i c show ?thesis
    unfolding m by (intro conjI)
qed

section \<open>The high-water mark\<close>

text \<open>
  C4, as the code has it. After any sequence of \<^verbatim>\<open>pack\<close>, \<^verbatim>\<open>unpack\<close> and
  \<^verbatim>\<open>setCurrentIndex\<close> calls that returned, \<^verbatim>\<open>getCurrentSize()\<close> is the maximum of its
  value before the sequence (0 on a fresh stream) and of the cursor values that the
  \<^verbatim>\<open>pack\<close> and \<^verbatim>\<open>unpack\<close> calls advanced to; a position set by \<^verbatim>\<open>setCurrentIndex\<close>
  does not count, whether it rewinds or moves forward. In particular the high-water mark
  never decreases across these calls.
\<close>

theorem high_water_mark_is_max_advanced_cursor:
  assumes "run_ops s xs = Inr s'"
  shows "sint (getCurrentSize s') = Max (set (sint (getCurrentSize s) # cursors_advanced_to s xs))
         \<and> sint (getCurrentSize s) \<le> sint (getCurrentSize s')"
proof -
  have m: "sint (d_current_size s') = Max (set (sint (d_current_size s) # cursors_advanced_to s xs))"
    using assms by (rule high_water_mark_run)
  have "sint (d_current_size s) \<le> Max (set (sint (d_current_size s) # cursors_advanced_to s xs))"
    by (rule Max_ge) simp_all
  with m show ?thesis by (simp add: getCurrentSize_def)
qed

theorem high_water_mark_is_max_advanced_cursor_witness:
  "run_ops (FixedSizedStream 16 zeroed) [Pack (IntArray [5]), SetCurrentIndex 8] =
     Inr \<lparr>d_buffer_size = 16, d_current_size = 4, d_buffer_index = 8,
          d_buffer = memcpy_in zeroed 0 [5, 0, 0, 0]\<rparr>
   \<and> sint (getCurrentSize \<lparr>d_buffer_size = 16, d_current_size = 4, d_buffer_index = 8,
          d_buffer = memcpy_in zeroed 0 [5, 0, 0, 0]\<rparr>)
       = Max (set (sint (getCurrentSize (FixedSizedStream 16 zeroed))
            # cursors_advanced_to (FixedSizedStream 16 zeroed)
                [Pack (IntArray [5]), SetCurrentIndex 8]))
   \<and> cursors_advanced_to (FixedSizedStream 16 zeroed)
         [Pack (IntArray [5]), SetCurrentIndex 8] = [4]
   \<and> sint (getCurrentSize (FixedSizedStream 16 zeroed)) = 0"
  using high_water_mark_is_max_advanced_cursor [OF run_pack_then_seek]
  unfolding run_pack_then_seek cursors_advanced_to_pack_then_seek
  by (simp add: getCurrentSize_def FixedSizedStream_def)

text \<open>
  C4 as stated fails: it takes the maximum over every cursor value reached. On a 16-byte
  stream, packing one integer and then calling \<^verbatim>\<open>setCurrentIndex(8)\<close> leaves the cursor at
  8, the largest value it has had, while \<^verbatim>\<open>getCurrentSize()\<close> is 4.
\<close>

theorem high_water_mark_misses_forward_seek:
  "run_ops (FixedSizedStream 16 zeroed) [Pack (IntArray [5]), SetCurrentIndex 8] =
     Inr \<lparr>d_buffer_size = 16, d_current_size = 4, d_buffer_index = 8,
          d_buffer = memcpy_in zeroed 0 [5, 0, 0, 0]\<rparr>
   \<and> sint (getCurrentSize \<lparr>d_buffer_size = 16, d_current_size = 4, d_buffer_index = 8,
          d_buffer = memcpy_in zeroed 0 [5, 0, 0, 0]\<rparr>) = 4
   \<and> Max (set (sint (getCurrentIndex (FixedSizedStream 16 zeroed))
          # cursors_reached (FixedSizedStream 16 zeroed)
              [Pack (IntArray [5]), SetCurrentIndex 8])) = 8
   \<and> sint (getCurrentSize \<lparr>d_buffer_size = 16, d_current_size = 4, d_buffer_index = 8,
          d_buffer = memcpy_in zeroed 0 [5, 0, 0, 0]\<rparr>)
       \<noteq> Max (set (sint (getCurrentIndex (FixedSizedStream 16 zeroed))
              # cursors_reached (FixedSizedStream 16 zeroed)
                  [Pack (IntArray [5]), SetCurrentIndex 8]))"
  unfolding run_pack_then_seek cursors_reached_pack_then_seek
  by (simp add: getCurrentSize_def getCurrentIndex_def FixedSizedStream_def)

section \<open>Packing advances the cursor\<close>




section \<open>Booleans\<close>

text \<open>
  C6. Packing a boolean array stores each element as one canonical byte, \<open>0x01\<close> for true
  and \<open>0x00\<close> for false: packing \<open>[true, false, true]\<close> at offset 0 (of a buffer of at least
  3 bytes) makes the first three bytes of the buffer \<open>[0x01, 0x00, 0x01]\<close>, and unpacking 3
  booleans from those bytes returns \<open>[true, false, true]\<close>.
\<close>

theorem pack_bool_stores_canonical_bytes:
  "(pack_bool s data = Inr s' \<longrightarrow>
      (\<forall>i<length data.
         d_buffer s' (sint (d_buffer_index s) + int i) = (if data ! i then 1 else 0)))
   \<and> (d_buffer_index s = 0 \<and> 3 \<le> sint (d_buffer_size s) \<longrightarrow>
      (\<exists>s1 s2. pack_bool s [True, False, True] = Inr s1
         \<and> map (d_buffer s1) [0, 1, 2] = [1, 0, 1]
         \<and> unpack_bool (resetIndex s1) 3 = Inr ([True, False, True], s2)))"
proof (intro conjI impI)
  assume "pack_bool s data = Inr s'"
  then have "d_buffer s' = memcpy_in (d_buffer s) (sint (d_buffer_index s))
                             (map (\<lambda>b. if b then 1 else 0) data)"
    by (auto simp: pack_bool_eq_if split: if_splits)
  then show "\<forall>i<length data.
      d_buffer s' (sint (d_buffer_index s) + int i) = (if data ! i then 1 else 0)"
    by (simp add: memcpy_in_inside)
next
  assume a: "d_buffer_index s = 0 \<and> 3 \<le> sint (d_buffer_size s)"
  let ?s1 = "s\<lparr>d_buffer_index := 3,
               d_current_size := (if sint (d_current_size s) < 3 then 3 else d_current_size s),
               d_buffer := memcpy_in (d_buffer s) 0 [1, 0, 1]\<rparr>"
  have p: "pack_bool s [True, False, True] = Inr ?s1"
    using a by (simp add: pack_bool_eq_if del: memcpy_in.simps)
  have m: "map (d_buffer ?s1) [0, 1, 2] = [1, 0, 1]"
    by simp
  have u: "unpack_bool (resetIndex ?s1) 3 = Inr ([True, False, True], ?s1)"
    using a
    by (simp add: unpack_bool_eq_if resetIndex_def setCurrentIndex_def memcpy_out_eq upt_rec)
  show "\<exists>s1 s2. pack_bool s [True, False, True] = Inr s1
         \<and> map (d_buffer s1) [0, 1, 2] = [1, 0, 1]
         \<and> unpack_bool (resetIndex s1) 3 = Inr ([True, False, True], s2)"
    by (intro exI conjI) (rule p, rule m, rule u)
qed

theorem pack_bool_stores_canonical_bytes_witness:
  "pack_bool (FixedSizedStream 3 zeroed) [True, False, True] =
     Inr \<lparr>d_buffer_size = 3, d_current_size = 3, d_buffer_index = 3,
          d_buffer = memcpy_in zeroed 0 [1, 0, 1]\<rparr>
   \<and> d_buffer_index (FixedSizedStream 3 zeroed) = 0
   \<and> 3 \<le> sint (d_buffer_size (FixedSizedStream 3 zeroed))
   \<and> (\<exists>s1 s2. pack_bool (FixedSizedStream 3 zeroed) [True, False, True] = Inr s1
         \<and> map (d_buffer s1) [0, 1, 2] = [1, 0, 1]
         \<and> unpack_bool (resetIndex s1) 3 = Inr ([True, False, True], s2))
   \<and> memcpy_in zeroed 0 [1, 0, 1] (0 + int 2) = (if [True, False, True] ! 2 then 1 else 0)"
proof -
  let ?s = "FixedSizedStream 3 zeroed"
  let ?s' = "\<lparr>d_buffer_size = 3, d_current_size = 3, d_buffer_index = 3,
          d_buffer = memcpy_in zeroed 0 [1, 0, 1]\<rparr>"
  have p: "pack_bool ?s [True, False, True] = Inr ?s'"
    by (simp add: pack_bool_eq_if FixedSizedStream_def del: memcpy_in.simps)
  have i: "d_buffer_index ?s = 0" and c: "3 \<le> sint (d_buffer_size ?s)"
    by (simp_all add: FixedSizedStream_def)
  note t = pack_bool_stores_canonical_bytes [of ?s "[True, False, True]" ?s']
  from t p have "\<forall>i<length [True, False, True].
      d_buffer ?s' (sint (d_buffer_index ?s) + int i) = (if [True, False, True] ! i then 1 else 0)"
    by blast
  then have b: "memcpy_in zeroed 0 [1, 0, 1] (0 + int 2) = (if [True, False, True] ! 2 then 1 else 0)"
    by (simp add: FixedSizedStream_def)
  from t i c have "\<exists>s1 s2. pack_bool ?s [True, False, True] = Inr s1
         \<and> map (d_buffer s1) [0, 1, 2] = [1, 0, 1]
         \<and> unpack_bool (resetIndex s1) 3 = Inr ([True, False, True], s2)"
    by blast
  with p i c b show ?thesis by (intro conjI)
qed

text \<open>
  C10. Boolean \<^verbatim>\<open>unpack\<close> decodes a stored byte as true if and only if the byte is exactly
  1: whatever bytes the buffer holds at the cursor, the \<open>i\<close>-th boolean returned is true
  when the \<open>i\<close>-th byte is 1 and false otherwise (2 and 255 decode as false).
\<close>

theorem unpack_bool_true_iff_byte_is_one:
  "unpack_bool s n = Inr (bs, s') \<longrightarrow>
     length bs = n
     \<and> (\<forall>i<n. bs ! i \<longleftrightarrow> d_buffer s (sint (d_buffer_index s) + int i) = 1)"
  by (auto simp: unpack_bool_eq_if memcpy_out_eq split: if_splits)

theorem unpack_bool_true_iff_byte_is_one_witness:
  "unpack_bool \<lparr>d_buffer_size = 4, d_current_size = 4, d_buffer_index = 0,
                d_buffer = memcpy_in zeroed 0 [2, 255, 1, 0]\<rparr> 4 =
     Inr ([False, False, True, False],
          \<lparr>d_buffer_size = 4, d_current_size = 4, d_buffer_index = 4,
             d_buffer = memcpy_in zeroed 0 [2, 255, 1, 0]\<rparr>)
   \<and> map (memcpy_in zeroed 0 [2, 255, 1, 0]) [0, 1, 2, 3] = [2, 255, 1, 0]"
proof -
  let ?s = "\<lparr>d_buffer_size = 4, d_current_size = 4, d_buffer_index = 0,
                d_buffer = memcpy_in zeroed 0 [2, 255, 1, 0]\<rparr>"
  let ?s' = "\<lparr>d_buffer_size = 4, d_current_size = 4, d_buffer_index = 4,
                d_buffer = memcpy_in zeroed 0 [2, 255, 1, 0]\<rparr>"
  have u: "unpack_bool ?s 4 = Inr ([False, False, True, False], ?s')"
    by (simp add: unpack_bool_eq_if memcpy_out_eq upt_rec zeroed_def)
  have m: "map (memcpy_in zeroed 0 [2, 255, 1, 0]) [0, 1, 2, 3] = [2, 255, 1, 0]"
    by (simp add: zeroed_def)
  from unpack_bool_true_iff_byte_is_one [of ?s 4 "[False, False, True, False]" ?s'] u m
  show ?thesis by simp
qed

section \<open>Accesses that the capacity check does not see\<close>

text \<open>
  C8. The capacity check in the cursor-advance primitive is evaluated only when the
  advanced cursor strictly exceeds the previous high-water mark: whenever the advanced
  cursor is at or below the high-water mark the primitive returns the pointer, whatever
  the capacity is and wherever the pointer points. For example, after
  \<^verbatim>\<open>setCurrentIndex(-4)\<close> on a fresh 16-byte stream, packing one integer returns without
  the overrun error and writes the four bytes at the addresses \<open>-4\<close> to \<open>-1\<close>, which are
  outside the buffer, and unpacking four characters returns the bytes found there.
\<close>

theorem capacity_check_skipped_below_high_water_mark:
  "(sint (d_buffer_index s + bytes) \<le> sint (d_current_size s) \<longrightarrow>
      getPointerAndAdvanceCursor s bytes =
        Inr (sint (d_buffer_index s), s\<lparr>d_buffer_index := d_buffer_index s + bytes\<rparr>))
   \<and> (\<exists>s1. pack (setCurrentIndex (FixedSizedStream 16 mem) (- 4)) (IntArray [42]) = Inr s1
         \<and> \<not> in_buffer s1 (- 4) \<and> d_buffer s1 (- 4) = 42
         \<and> getCurrentIndex s1 = 0 \<and> getCurrentSize s1 = 0)
   \<and> (\<exists>s2. unpack (setCurrentIndex (FixedSizedStream 16 mem) (- 4)) KChar 4 =
           Inr (CharArray [mem (- 4), mem (- 3), mem (- 2), mem (- 1)], s2))"
proof (intro conjI impI)
  assume "sint (d_buffer_index s + bytes) \<le> sint (d_current_size s)"
  then show "getPointerAndAdvanceCursor s bytes =
        Inr (sint (d_buffer_index s), s\<lparr>d_buffer_index := d_buffer_index s + bytes\<rparr>)"
    by (simp add: getPointerAndAdvanceCursor_eq)
next
  let ?s0 = "setCurrentIndex (FixedSizedStream 16 mem) (- 4)"
  let ?s1 = "\<lparr>d_buffer_size = 16, d_current_size = 0, d_buffer_index = 0,
              d_buffer = memcpy_in mem (- 4) [42, 0, 0, 0]\<rparr>"
  have p: "pack ?s0 (IntArray [42]) = Inr ?s1"
    by (simp add: pack_eq_if FixedSizedStream_def setCurrentIndex_def requested_def
        sizeofInt_def written_bytes_IntArray_42 del: written_bytes.simps memcpy_in.simps)
  have "\<not> in_buffer ?s1 (- 4) \<and> d_buffer ?s1 (- 4) = 42
         \<and> getCurrentIndex ?s1 = 0 \<and> getCurrentSize ?s1 = 0"
    by (simp add: in_buffer_def getCurrentIndex_def getCurrentSize_def)
  with p show "\<exists>s1. pack ?s0 (IntArray [42]) = Inr s1
         \<and> \<not> in_buffer s1 (- 4) \<and> d_buffer s1 (- 4) = 42
         \<and> getCurrentIndex s1 = 0 \<and> getCurrentSize s1 = 0"
    by (intro exI[of _ ?s1] conjI) simp_all
next
  let ?s0 = "setCurrentIndex (FixedSizedStream 16 mem) (- 4)"
  have "unpack ?s0 KChar 4 =
          Inr (CharArray [mem (- 4), mem (- 3), mem (- 2), mem (- 1)],
               \<lparr>d_buffer_size = 16, d_current_size = 0, d_buffer_index = 0, d_buffer = mem\<rparr>)"
    by (simp add: unpack_eq_if FixedSizedStream_def setCurrentIndex_def requested_def
        sizeofChar_def memcpy_out_eq upt_rec)
  then show "\<exists>s2. unpack ?s0 KChar 4 =
           Inr (CharArray [mem (- 4), mem (- 3), mem (- 2), mem (- 1)], s2)"
    by (rule exI)
qed

theorem capacity_check_skipped_below_high_water_mark_witness:
  "sint (d_buffer_index (setCurrentIndex (FixedSizedStream 16 zeroed) (- 4)) + 4)
     \<le> sint (d_current_size (setCurrentIndex (FixedSizedStream 16 zeroed) (- 4)))
   \<and> getPointerAndAdvanceCursor (setCurrentIndex (FixedSizedStream 16 zeroed) (- 4)) 4 =
       Inr (- 4, \<lparr>d_buffer_size = 16, d_current_size = 0, d_buffer_index = 0,
                   d_buffer = zeroed\<rparr>)
   \<and> \<not> in_buffer (setCurrentIndex (FixedSizedStream 16 zeroed) (- 4)) (- 4)"
  using capacity_check_skipped_below_high_water_mark
    [of "setCurrentIndex (FixedSizedStream 16 zeroed) (- 4)" 4 zeroed]
  by (simp add: FixedSizedStream_def setCurrentIndex_def in_buffer_def)

end
